theory Spec2Isabelle
  imports Main
begin

section \<open>Python values and exceptions\<close>

text \<open>
  The connector of \<^verbatim>\<open>connectors/azure-openai-connector.py\<close> handles
  dynamically typed data: the decoded JSON body of an HTTP 400 error, the operator's
  optional parameters, the request payload and the provider's response object. A value
  is therefore one of the shapes below. A float is kept by its literal, since no
  operation of the connector looks inside a number. \<open>PObj\<close> is an object that has
  attributes only (the provider's response, its choices and messages): it is neither a
  container nor subscriptable. A dictionary is an association list in insertion order;
  its keys are strings, as the keys of decoded JSON and of keyword arguments are.
\<close>

datatype pyval =
    PNone
  | PBool bool
  | PInt int
  | PFloat string
  | PStr string
  | PList "pyval list"
  | PDict "(string \<times> pyval) list"
  | PObj "(string \<times> pyval) list"

type_synonym pydict = "(string \<times> pyval) list"

text \<open>
  \<open>BadRequestError message body\<close> is the provider's HTTP 400 error with its decoded
  body. \<open>OtherError cls message\<close> is an exception of any class that
  \<^verbatim>\<open>except BadRequestError\<close> does not catch (a timeout, a connection error, a
  cancellation). The remaining four are the errors that Python's own operators raise.
\<close>

datatype exn =
    BadRequestError string pyval
  | OtherError string string
  | TypeError
  | IndexError
  | KeyError
  | AttributeError

definition then_do :: "exn + 'a \<Rightarrow> ('a \<Rightarrow> exn + 'b) \<Rightarrow> exn + 'b" where
  "then_do r f = (case r of Inl e \<Rightarrow> Inl e | Inr v \<Rightarrow> f v)"

text \<open>\<^verbatim>\<open>a and b\<close> and \<^verbatim>\<open>if t: ... else: ...\<close> over tests that may raise.\<close>

definition py_and :: "exn + bool \<Rightarrow> exn + bool \<Rightarrow> exn + bool" where
  "py_and a b = (case a of Inl e \<Rightarrow> Inl e | Inr t \<Rightarrow> (if t then b else Inr False))"

definition py_if :: "exn + bool \<Rightarrow> exn + 'a \<Rightarrow> exn + 'a \<Rightarrow> exn + 'a" where
  "py_if t yes no = (case t of Inl e \<Rightarrow> Inl e | Inr b \<Rightarrow> (if b then yes else no))"

subsection \<open>Operators\<close>

fun starts_with :: "string \<Rightarrow> string \<Rightarrow> bool" where
  "starts_with hay [] = True"
| "starts_with [] (n # ns) = False"
| "starts_with (h # hs) (n # ns) = (h = n \<and> starts_with hs ns)"

text \<open>\<^verbatim>\<open>needle in hay\<close> for two strings: the needle occurs as a substring.\<close>

fun str_contains :: "string \<Rightarrow> string \<Rightarrow> bool" where
  "str_contains [] needle = (needle = [])"
| "str_contains (h # hs) needle = (starts_with (h # hs) needle \<or> str_contains hs needle)"

text \<open>
  \<^verbatim>\<open>s in v\<close> for a string \<open>s\<close>: a key of a dictionary, a substring of a string,
  an element of a list (only a string equals a string); any other value is not a
  container and the test raises \<^verbatim>\<open>TypeError\<close>.
\<close>

fun py_in :: "string \<Rightarrow> pyval \<Rightarrow> exn + bool" where
  "py_in s (PDict kvs) = Inr (s \<in> set (map fst kvs))"
| "py_in s (PStr t) = Inr (str_contains t s)"
| "py_in s (PList vs) = Inr (PStr s \<in> set vs)"
| "py_in s PNone = Inl TypeError"
| "py_in s (PBool b) = Inl TypeError"
| "py_in s (PInt i) = Inl TypeError"
| "py_in s (PFloat f) = Inl TypeError"
| "py_in s (PObj attrs) = Inl TypeError"

text \<open>
  \<^verbatim>\<open>v[k]\<close> for a string key: a lookup in a dictionary (\<^verbatim>\<open>KeyError\<close> when
  the key is missing); strings and lists take integer indices only, and nothing else
  is subscriptable.
\<close>

fun py_getitem :: "pyval \<Rightarrow> string \<Rightarrow> exn + pyval" where
  "py_getitem (PDict kvs) k = (case map_of kvs k of Some v \<Rightarrow> Inr v | None \<Rightarrow> Inl KeyError)"
| "py_getitem PNone k = Inl TypeError"
| "py_getitem (PBool b) k = Inl TypeError"
| "py_getitem (PInt i) k = Inl TypeError"
| "py_getitem (PFloat f) k = Inl TypeError"
| "py_getitem (PStr s) k = Inl TypeError"
| "py_getitem (PList vs) k = Inl TypeError"
| "py_getitem (PObj attrs) k = Inl TypeError"

text \<open>
  \<^verbatim>\<open>v[i]\<close> for an integer index: an element of a list or a character of a
  string, counted from the end when \<open>i\<close> is negative, \<^verbatim>\<open>IndexError\<close> out of
  range; a dictionary with string keys has no integer key.
\<close>

definition seq_index :: "'a list \<Rightarrow> int \<Rightarrow> exn + 'a" where
  "seq_index xs i =
     (if 0 \<le> i then (if i < int (length xs) then Inr (xs ! nat i) else Inl IndexError)
      else (if - int (length xs) \<le> i then Inr (xs ! nat (int (length xs) + i))
            else Inl IndexError))"

fun py_index :: "pyval \<Rightarrow> int \<Rightarrow> exn + pyval" where
  "py_index (PList vs) i = seq_index vs i"
| "py_index (PStr s) i = then_do (seq_index s i) (\<lambda>ch. Inr (PStr [ch]))"
| "py_index (PDict kvs) i = Inl KeyError"
| "py_index PNone i = Inl TypeError"
| "py_index (PBool b) i = Inl TypeError"
| "py_index (PInt n) i = Inl TypeError"
| "py_index (PFloat f) i = Inl TypeError"
| "py_index (PObj attrs) i = Inl TypeError"

text \<open>
  \<^verbatim>\<open>v.name\<close>, for the three names the connector reads (\<^verbatim>\<open>choices\<close>,
  \<^verbatim>\<open>message\<close>, \<^verbatim>\<open>content\<close>): no built-in value has any of them.
\<close>

fun py_getattr :: "pyval \<Rightarrow> string \<Rightarrow> exn + pyval" where
  "py_getattr (PObj attrs) a =
     (case map_of attrs a of Some v \<Rightarrow> Inr v | None \<Rightarrow> Inl AttributeError)"
| "py_getattr PNone a = Inl AttributeError"
| "py_getattr (PBool b) a = Inl AttributeError"
| "py_getattr (PInt i) a = Inl AttributeError"
| "py_getattr (PFloat f) a = Inl AttributeError"
| "py_getattr (PStr s) a = Inl AttributeError"
| "py_getattr (PList vs) a = Inl AttributeError"
| "py_getattr (PDict kvs) a = Inl AttributeError"

text \<open>\<^verbatim>\<open>d.get(k, default)\<close> and the assignment \<^verbatim>\<open>d[k] = v\<close> of a dictionary
  display: an existing key keeps its place and takes the new value, a new key goes last.\<close>

definition dict_get :: "pydict \<Rightarrow> string \<Rightarrow> pyval \<Rightarrow> pyval" where
  "dict_get d k dflt = (case map_of d k of Some v \<Rightarrow> v | None \<Rightarrow> dflt)"

fun dict_set :: "string \<Rightarrow> pyval \<Rightarrow> pydict \<Rightarrow> pydict" where
  "dict_set k v [] = [(k, v)]"
| "dict_set k v ((k', v') # d) = (if k' = k then (k, v) # d else (k', v') # dict_set k v d)"

section \<open>The connector\<close>

text \<open>
  Modelled from the spec: the base class \<^verbatim>\<open>Connector\<close>, which sets these
  fields from the endpoint arguments, is not among the sources. The fields are the
  ones the connector reads, with the types the specification's data model gives them:
  the pre- and post-prompt are strings, the system prompt is an optional string, the
  timeout and the values of the optional parameters are opaque.
\<close>

record base_connector =
  token :: string
  endpoint :: string
  pre_prompt :: string
  post_prompt :: string
  system_prompt :: "string option"
  timeout :: pyval
  optional_params :: pydict

text \<open>
  \<^verbatim>\<open>AzureOpenAIConnector\<close> adds three fields. The client handle is modelled by
  what \<^verbatim>\<open>chat.completions.create\<close> does with it: given the keyword arguments and
  the state \<open>'w\<close> of the world outside the process, it returns a response or raises,
  and leaves the world in a new state.
\<close>

record 'w connector = base_connector +
  api_version :: pyval
  client :: "pydict \<Rightarrow> 'w \<Rightarrow> (exn + pyval) \<times> 'w"
  model :: pyval

text \<open>\<^verbatim>\<open>__init__\<close>, after the base class has set its fields; \<open>make_client\<close> is the
  constructor \<^verbatim>\<open>AsyncAzureOpenAI(api_key, api_version, azure_endpoint)\<close>.\<close>

definition init ::
  "base_connector \<Rightarrow> (string \<Rightarrow> pyval \<Rightarrow> string \<Rightarrow> pydict \<Rightarrow> 'w \<Rightarrow> (exn + pyval) \<times> 'w)
     \<Rightarrow> 'w connector" where
  "init b make_client =
     (let version = dict_get (optional_params b) ''api_version'' (PStr ''2024-02-01'') in
      \<lparr>token = token b, endpoint = endpoint b,
       pre_prompt = pre_prompt b, post_prompt = post_prompt b,
       system_prompt = system_prompt b, timeout = timeout b,
       optional_params = optional_params b,
       api_version = version,
       client = make_client (token b) version (endpoint b),
       model = dict_get (optional_params b) ''model'' (PStr '''')\<rparr>)"

subsection \<open>Building the request\<close>

text \<open>Truth value of the optional string \<^verbatim>\<open>self.system_prompt\<close>: \<^verbatim>\<open>None\<close> and
  the empty string are false.\<close>

fun truthy :: "string option \<Rightarrow> bool" where
  "truthy None = False"
| "truthy (Some s) = (s \<noteq> [])"

definition turn :: "string \<Rightarrow> string \<Rightarrow> pyval" where
  "turn role content = PDict [(''role'', PStr role), (''content'', PStr content)]"

definition connector_prompt :: "'w connector \<Rightarrow> string \<Rightarrow> string" where
  "connector_prompt c prompt = pre_prompt c @ prompt @ post_prompt c"

definition openai_request :: "'w connector \<Rightarrow> string \<Rightarrow> pyval list" where
  "openai_request c prompt =
     (if truthy (system_prompt c)
      then (case system_prompt c of
              Some s \<Rightarrow> [turn ''system'' s, turn ''user'' (connector_prompt c prompt)]
            | None \<Rightarrow> [turn ''user'' (connector_prompt c prompt)])
      else [turn ''user'' (connector_prompt c prompt)])"

definition new_params :: "'w connector \<Rightarrow> string \<Rightarrow> pydict" where
  "new_params c prompt =
     dict_set ''timeout'' (timeout c)
       (dict_set ''messages'' (PList (openai_request c prompt))
         (dict_set ''model'' (model c) (optional_params c)))"

subsection \<open>Reading the response\<close>

definition process_response :: "pyval \<Rightarrow> exn + pyval" where
  "process_response response =
     then_do (py_getattr response ''choices'') (\<lambda>choices.
     then_do (py_index choices 0) (\<lambda>choice.
     then_do (py_getattr choice ''message'') (\<lambda>message.
     py_getattr message ''content'')))"

subsection \<open>The handler of \<^verbatim>\<open>BadRequestError\<close>\<close>

text \<open>
  The three nested tests of the handler, in the order the source evaluates them; the
  bare \<^verbatim>\<open>raise\<close> at its end raises the handled exception again. A test that
  raises leaves the handler with that new exception.
\<close>

definition is_dict :: "pyval \<Rightarrow> bool" where
  "is_dict v = (case v of PDict kvs \<Rightarrow> True | _ \<Rightarrow> False)"

definition on_bad_request :: "exn \<Rightarrow> pyval \<Rightarrow> exn + pyval" where
  "on_bad_request ex body =
     py_if (py_and (Inr (is_dict body)) (py_in ''innererror'' body))
       (py_if (then_do (py_getitem body ''innererror'') (py_in ''code''))
          (py_if (py_and
                    (then_do (then_do (py_getitem body ''innererror'')
                                      (\<lambda>inner. py_getitem inner ''code''))
                             (py_in ''ResponsibleAIPolicyViolation''))
                    (py_in ''message'' body))
             (py_getitem body ''message'')
             (Inl ex))
          (Inl ex))
       (Inl ex)"

fun except_clause :: "exn + pyval \<Rightarrow> exn + pyval" where
  "except_clause (Inl (BadRequestError m body)) = on_bad_request (BadRequestError m body) body"
| "except_clause r = r"

subsection \<open>\<^verbatim>\<open>get_response\<close>\<close>

text \<open>
  The body of \<^verbatim>\<open>get_response\<close>, without its two decorators (the rate limiter and
  the retry policy belong to the base class). It returns the value or the exception
  the call ends with, the connector after the call, and the world after the call.
  Both the remote call and \<^verbatim>\<open>_process_response\<close> stand inside the
  \<^verbatim>\<open>try\<close>.
\<close>

definition get_response ::
  "'w connector \<Rightarrow> string \<Rightarrow> 'w \<Rightarrow> (exn + pyval) \<times> 'w connector \<times> 'w" where
  "get_response c prompt w =
     (case client c (new_params c prompt) w of
        (answer, w') \<Rightarrow> (except_clause (then_do answer process_response), c, w'))"

text \<open>A client that answers by \<open>remote\<close> and whose world is the list of the requests
  it has been sent.\<close>

definition recording :: "(pydict \<Rightarrow> exn + pyval) \<Rightarrow> pydict \<Rightarrow> pydict list
    \<Rightarrow> (exn + pyval) \<times> pydict list" where
  "recording remote request sent = (remote request, sent @ [request])"

subsection \<open>Calls in flight\<close>

text \<open>
  \<^verbatim>\<open>get_response\<close> is a coroutine. Its body gives control back to the event
  loop at one place only, the \<^verbatim>\<open>await\<close> of the remote call on line 69
  (\<^verbatim>\<open>_process_response\<close> has no \<^verbatim>\<open>await\<close> of its own and runs through).
  A call is therefore in one of three states: not yet started, suspended at the
  \<^verbatim>\<open>await\<close> while the answer of the remote call is on its way, or ended with
  its value or exception.
\<close>

datatype call = Ready string | Awaiting "exn + pyval" | Done "exn + pyval"

text \<open>
  Lines 51 to 69, up to the suspension: the request is built from the connector as it
  is at that moment and handed to the client. The world takes the request and fixes
  its answer; the answer reaches the coroutine when the event loop resumes it. The
  connector that the part leaves behind is returned with it.
\<close>

definition start_call :: "'w connector \<Rightarrow> string \<Rightarrow> 'w \<Rightarrow> (exn + pyval) \<times> 'w connector \<times> 'w" where
  "start_call c prompt w =
     (case client c (new_params c prompt) w of (answer, w') \<Rightarrow> (answer, c, w'))"

text \<open>Lines 69 to 83, from the resumption to the end of the call.\<close>

definition resume_call :: "'w connector \<Rightarrow> exn + pyval \<Rightarrow> (exn + pyval) \<times> 'w connector" where
  "resume_call c answer = (except_clause (then_do answer process_response), c)"

text \<open>
  The event loop holds the one connector object that all calls share, the world, and
  the calls. The connector is held by its value, optional parameters included: an
  assignment to an attribute and a change made in place to the dictionary would both
  show as another value. \<open>step i\<close> runs call \<open>i\<close> from where it stands to its
  next suspension or to its end, and stores the connector that this part leaves behind;
  a schedule is any list of such turns.
\<close>

record 'w event_loop =
  self :: "'w connector"
  world :: 'w
  calls :: "call list"

definition step :: "nat \<Rightarrow> 'w event_loop \<Rightarrow> 'w event_loop" where
  "step i s =
     (if i < length (calls s) then
        (case calls s ! i of
           Ready prompt \<Rightarrow>
             (case start_call (self s) prompt (world s) of
                (answer, c', w') \<Rightarrow>
                  s\<lparr>self := c', world := w', calls := (calls s)[i := Awaiting answer]\<rparr>)
         | Awaiting answer \<Rightarrow>
             (case resume_call (self s) answer of
                (result, c') \<Rightarrow> s\<lparr>self := c', calls := (calls s)[i := Done result]\<rparr>)
         | Done result \<Rightarrow> s)
      else s)"

fun run :: "nat list \<Rightarrow> 'w event_loop \<Rightarrow> 'w event_loop" where
  "run [] s = s"
| "run (i # schedule) s = run schedule (step i s)"

text \<open>Calls made one after the other, each on the connector and the world that the
  call before it left: what a retry, or a second request, does.\<close>

fun in_turn :: "'w connector \<Rightarrow> string list \<Rightarrow> 'w \<Rightarrow> (exn + pyval) list \<times> 'w connector \<times> 'w" where
  "in_turn c [] w = ([], c, w)"
| "in_turn c (p # ps) w =
     (case get_response c p w of
        (r, c', w') \<Rightarrow> (case in_turn c' ps w' of (rs, c'', w'') \<Rightarrow> (r # rs, c'', w'')))"

text \<open>The calls of a schedule in the order in which they start (\<open>n\<close> is the number
  of calls).\<close>

fun start_order :: "nat \<Rightarrow> nat list \<Rightarrow> nat list" where
  "start_order n [] = []"
| "start_order n (i # schedule) =
     (if i < n then i # filter (\<lambda>j. j \<noteq> i) (start_order n schedule)
      else start_order n schedule)"

text \<open>
  For the proofs: the answers that the world gives to the requests of a list of
  prompts, one after the other; the state of call \<open>i\<close> after a schedule, given
  the answers to the calls that have started; and with them the state that a schedule
  reaches, in closed form.
\<close>

fun serve :: "'w connector \<Rightarrow> string list \<Rightarrow> 'w \<Rightarrow> (exn + pyval) list \<times> 'w" where
  "serve c [] w = ([], w)"
| "serve c (p # ps) w =
     (case client c (new_params c p) w of
        (a, w') \<Rightarrow> (case serve c ps w' of (as, w'') \<Rightarrow> (a # as, w'')))"

definition call_state :: "string list \<Rightarrow> nat list \<Rightarrow> (nat \<Rightarrow> (exn + pyval) option) \<Rightarrow> nat \<Rightarrow> call" where
  "call_state ps schedule answers i =
     (case answers i of
        None \<Rightarrow> Ready (ps ! i)
      | Some a \<Rightarrow>
          (if count_list schedule i = 1 then Awaiting a
           else Done (except_clause (then_do a process_response))))"

definition reached :: "'w connector \<Rightarrow> 'w \<Rightarrow> string list \<Rightarrow> nat list \<Rightarrow> 'w event_loop" where
  "reached c w ps schedule =
     (let order = start_order (length ps) schedule;
          served = serve c (map ((!) ps) order) w
      in \<lparr>self = c, world = snd served,
          calls = map (call_state ps schedule (map_of (zip order (fst served)))) [0..<length ps]\<rparr>)"

subsection \<open>Example data\<close>

text \<open>
  A configured endpoint whose optional parameters also hold entries named
  \<^verbatim>\<open>model\<close>, \<^verbatim>\<open>timeout\<close> and \<^verbatim>\<open>messages\<close>, a connector built from it
  by \<open>init\<close> with a recording client, and the provider's data: a completion with
  its choices, and the error body of a content-filter rejection.
\<close>

definition example_base :: base_connector where
  "example_base =
     \<lparr>token = ''secret'', endpoint = ''https://example.openai.azure.com'',
      pre_prompt = ''Q: '', post_prompt = '' A:'',
      system_prompt = Some ''Be brief.'', timeout = PInt 600,
      optional_params =
        [(''temperature'', PFloat ''0.5''), (''model'', PStr ''gpt-4o''),
         (''timeout'', PInt 5), (''messages'', PNone)]\<rparr>"

definition example_connector :: "(pydict \<Rightarrow> exn + pyval) \<Rightarrow> pydict list connector" where
  "example_connector remote = init example_base (\<lambda>key version uri. recording remote)"

definition completion :: "pyval list \<Rightarrow> pyval" where
  "completion choices = PObj [(''id'', PStr ''chatcmpl-1''), (''choices'', PList choices)]"

definition choice :: "pyval \<Rightarrow> pyval" where
  "choice content =
     PObj [(''finish_reason'', PStr ''stop''),
           (''message'', PObj [(''role'', PStr ''assistant''), (''content'', content)])]"

definition filtered_body :: pyval where
  "filtered_body =
     PDict [(''innererror'', PDict [(''code'', PStr ''ResponsibleAIPolicyViolation'')]),
            (''message'', PStr ''rejected'')]"

section \<open>Properties\<close>

subsection \<open>Dictionaries and substrings\<close>

lemma map_of_dict_set: "map_of (dict_set k v d) = (map_of d)(k \<mapsto> v)"
  by (induction d) (auto simp: fun_eq_iff)

lemma key_of_lookup: "map_of d k = Some v \<Longrightarrow> k \<in> set (map fst d)"
  by (induction d) (auto split: if_splits)

lemma key_not_in_dict: "map_of d k = None \<Longrightarrow> k \<notin> set (map fst d)"
  by (induction d) (auto split: if_splits)

lemma starts_with_iff: "starts_with hay needle \<longleftrightarrow> (\<exists>suf. hay = needle @ suf)"
  by (induction hay needle rule: starts_with.induct) auto

text \<open>The executable test is the substring relation.\<close>

lemma str_contains_iff:
  "str_contains hay needle \<longleftrightarrow> (\<exists>pre suf. hay = pre @ needle @ suf)"
proof (induction hay)
  case Nil
  then show ?case by auto
next
  case (Cons h hs)
  show ?case
  proof
    assume "str_contains (h # hs) needle"
    then consider "starts_with (h # hs) needle" | "str_contains hs needle" by auto
    then show "\<exists>pre suf. h # hs = pre @ needle @ suf"
    proof cases
      case 1
      then obtain suf where "h # hs = needle @ suf" by (auto simp: starts_with_iff)
      then have "h # hs = [] @ needle @ suf" by simp
      then show ?thesis by blast
    next
      case 2
      then obtain pre suf where "hs = pre @ needle @ suf" using Cons.IH by auto
      then have "h # hs = (h # pre) @ needle @ suf" by simp
      then show ?thesis by blast
    qed
  next
    assume "\<exists>pre suf. h # hs = pre @ needle @ suf"
    then obtain pre suf where eq: "h # hs = pre @ needle @ suf" by auto
    show "str_contains (h # hs) needle"
    proof (cases pre)
      case Nil
      with eq have "starts_with (h # hs) needle" by (auto simp: starts_with_iff)
      then show ?thesis by simp
    next
      case (Cons p ps)
      with eq have "hs = ps @ needle @ suf" by simp
      then have "str_contains hs needle" using Cons.IH by blast
      then show ?thesis by simp
    qed
  qed
qed

subsection \<open>The request that is sent\<close>

lemma new_params_client_update: "new_params (c\<lparr>client := f\<rparr>) p = new_params c p"
proof -
  have "connector_prompt (c\<lparr>client := f\<rparr>) p = connector_prompt c p"
    by (simp add: connector_prompt_def)
  then have "openai_request (c\<lparr>client := f\<rparr>) p = openai_request c p"
    by (cases "system_prompt c") (simp_all add: openai_request_def)
  then show ?thesis
    by (simp add: new_params_def)
qed

text \<open>One call of \<open>get_response\<close> sends exactly one request, the merged payload.\<close>

lemma sent_request:
  "snd (snd (get_response (c\<lparr>client := recording remote\<rparr>) p sent)) = sent @ [new_params c p]"
  by (simp add: get_response_def recording_def new_params_client_update)

lemma messages_of_new_params:
  "map_of (new_params c p) ''messages'' = Some (PList (openai_request c p))"
  by (simp add: new_params_def map_of_dict_set)

lemma example_client:
  "client (example_connector remote) req sent = (remote req, sent @ [req])"
  by (simp add: example_connector_def init_def recording_def)

text \<open>
  C3. For every prompt (the empty one included) and every configured pre- and
  post-prompt, the request that \<open>get_response\<close> sends has exactly one turn of role
  \<^verbatim>\<open>user\<close>, and its content is the pre-prompt, the prompt and the post-prompt
  concatenated.
\<close>

theorem user_turn_wraps_prompt:
  "\<exists>req turns.
     snd (snd (get_response (c\<lparr>client := recording remote\<rparr>) p sent)) = sent @ [req] \<and>
     map_of req ''messages'' = Some (PList turns) \<and>
     filter (\<lambda>t. py_getitem t ''role'' = Inr (PStr ''user'')) turns =
       [PDict [(''role'', PStr ''user''), (''content'', PStr (pre_prompt c @ p @ post_prompt c))]]"
proof -
  have "filter (\<lambda>t. py_getitem t ''role'' = Inr (PStr ''user'')) (openai_request c p) =
       [PDict [(''role'', PStr ''user''), (''content'', PStr (pre_prompt c @ p @ post_prompt c))]]"
    by (cases "system_prompt c") (simp_all add: openai_request_def turn_def connector_prompt_def)
  then show ?thesis
    using sent_request messages_of_new_params by blast
qed

text \<open>
  C4, as amended. When a non-empty system prompt is configured, the request sent has
  two turns: the system turn (role \<^verbatim>\<open>system\<close>, content the configured system
  prompt) and then the user turn. When no system prompt is configured, or the
  configured one is the empty string, the request has the user turn only.
\<close>

theorem turn_sequence_by_system_prompt:
  "\<exists>req turns.
     snd (snd (get_response (c\<lparr>client := recording remote\<rparr>) p sent)) = sent @ [req] \<and>
     map_of req ''messages'' = Some (PList turns) \<and>
     (\<forall>s. system_prompt c = Some s \<and> s \<noteq> [] \<longrightarrow>
        length turns = 2 \<and>
        turns ! 0 = PDict [(''role'', PStr ''system''), (''content'', PStr s)] \<and>
        turns ! 1 = PDict [(''role'', PStr ''user''),
                           (''content'', PStr (pre_prompt c @ p @ post_prompt c))]) \<and>
     (system_prompt c = None \<or> system_prompt c = Some [] \<longrightarrow>
        turns = [PDict [(''role'', PStr ''user''),
                        (''content'', PStr (pre_prompt c @ p @ post_prompt c))]])"
proof -
  have sys: "\<forall>s. system_prompt c = Some s \<and> s \<noteq> [] \<longrightarrow>
        length (openai_request c p) = 2 \<and>
        openai_request c p ! 0 = PDict [(''role'', PStr ''system''), (''content'', PStr s)] \<and>
        openai_request c p ! 1 = PDict [(''role'', PStr ''user''),
                           (''content'', PStr (pre_prompt c @ p @ post_prompt c))]"
    by (simp add: openai_request_def turn_def connector_prompt_def)
  have nosys: "system_prompt c = None \<or> system_prompt c = Some [] \<longrightarrow>
        openai_request c p = [PDict [(''role'', PStr ''user''),
                        (''content'', PStr (pre_prompt c @ p @ post_prompt c))]]"
    by (auto simp add: openai_request_def turn_def connector_prompt_def)
  show ?thesis
    using sent_request messages_of_new_params sys nosys
    by blast
qed

theorem turn_sequence_by_system_prompt_witness:
  "\<exists>req. snd (snd (get_response (example_connector (\<lambda>req. Inr (completion [choice (PStr ''4'')])))
                      ''2+2?'' [])) = [req] \<and>
     map_of req ''messages'' =
       Some (PList [PDict [(''role'', PStr ''system''), (''content'', PStr ''Be brief.'')],
                    PDict [(''role'', PStr ''user''), (''content'', PStr ''Q: 2+2? A:'')]])"
proof -
  let ?remote = "\<lambda>req::pydict. (Inr (completion [choice (PStr ''4'')]) :: exn + pyval)"
  let ?c = "example_connector ?remote"
  have same: "?c\<lparr>client := recording ?remote\<rparr> = ?c"
    by (simp add: example_connector_def init_def)
  have sp: "system_prompt ?c = Some ''Be brief.''" "pre_prompt ?c = ''Q: ''"
    "post_prompt ?c = '' A:''"
    by (simp_all add: example_connector_def init_def example_base_def)
  obtain req turns where
    sent: "snd (snd (get_response (?c\<lparr>client := recording ?remote\<rparr>) ''2+2?'' [])) = [] @ [req]"
    and msgs: "map_of req ''messages'' = Some (PList turns)"
    and two: "\<forall>s. system_prompt ?c = Some s \<and> s \<noteq> [] \<longrightarrow>
        length turns = 2 \<and>
        turns ! 0 = PDict [(''role'', PStr ''system''), (''content'', PStr s)] \<and>
        turns ! 1 = PDict [(''role'', PStr ''user''),
                           (''content'', PStr (pre_prompt ?c @ ''2+2?'' @ post_prompt ?c))]"
    using turn_sequence_by_system_prompt
      [where c = ?c and remote = ?remote and p = "''2+2?''" and sent = "[]"]
    by blast
  from two sp have len: "length turns = 2"
    and t0: "turns ! 0 = PDict [(''role'', PStr ''system''), (''content'', PStr ''Be brief.'')]"
    and t1: "turns ! 1 = PDict [(''role'', PStr ''user''), (''content'', PStr ''Q: 2+2? A:'')]"
    by simp_all
  from len obtain a b where ab: "turns = [a, b]"
    by (cases turns; cases "tl turns"; cases "tl (tl turns)") auto
  with t0 t1 have turns: "turns =
      [PDict [(''role'', PStr ''system''), (''content'', PStr ''Be brief.'')],
       PDict [(''role'', PStr ''user''), (''content'', PStr ''Q: 2+2? A:'')]]"
    by simp
  show ?thesis
  proof (intro exI [of _ req] conjI)
    show "snd (snd (get_response ?c ''2+2?'' [])) = [req]"
      using sent by (simp only: same append_Nil)
    show "map_of req ''messages'' =
       Some (PList [PDict [(''role'', PStr ''system''), (''content'', PStr ''Be brief.'')],
                    PDict [(''role'', PStr ''user''), (''content'', PStr ''Q: 2+2? A:'')]])"
      using msgs by (simp only: turns)
  qed
qed

text \<open>
  C4 as stated fails where the configured system prompt is the empty string: a system
  prompt is configured, and the request sent has the user turn only.
\<close>

theorem empty_system_prompt_one_turn_sent:
  "system_prompt ((example_connector (\<lambda>req. Inr (completion [choice (PStr ''4'')])))
                    \<lparr>system_prompt := Some []\<rparr>) = Some [] \<and>
   snd (snd (get_response ((example_connector (\<lambda>req. Inr (completion [choice (PStr ''4'')])))
                             \<lparr>system_prompt := Some []\<rparr>) ''2+2?'' []))
     = [[(''temperature'', PFloat ''0.5''), (''model'', PStr ''gpt-4o''),
         (''timeout'', PInt 600),
         (''messages'', PList [PDict [(''role'', PStr ''user''),
                                      (''content'', PStr ''Q: 2+2? A:'')]])]]"
  by (simp add: get_response_def example_connector_def init_def recording_def new_params_def
      openai_request_def turn_def connector_prompt_def example_base_def dict_get_def)

text \<open>
  C10. When the configured system prompt is the empty string, the request sent has
  length 1: the user turn only, as when no system prompt is configured.
\<close>

theorem empty_system_prompt_not_configured:
  assumes "system_prompt c = Some []"
  shows "\<exists>req turns.
     snd (snd (get_response (c\<lparr>client := recording remote\<rparr>) p sent)) = sent @ [req] \<and>
     map_of req ''messages'' = Some (PList turns) \<and>
     length turns = 1 \<and>
     turns = [PDict [(''role'', PStr ''user''),
                     (''content'', PStr (pre_prompt c @ p @ post_prompt c))]]"
proof -
  have "openai_request c p = [PDict [(''role'', PStr ''user''),
                     (''content'', PStr (pre_prompt c @ p @ post_prompt c))]]"
    using assms by (simp add: openai_request_def turn_def connector_prompt_def)
  then show ?thesis
    using sent_request messages_of_new_params by fastforce
qed

theorem empty_system_prompt_not_configured_witness:
  "system_prompt ((example_connector (\<lambda>req. Inl (OtherError ''APITimeoutError'' ''Request timed out.'')))
                    \<lparr>system_prompt := Some []\<rparr>) = Some [] \<and>
   (\<exists>req. snd (snd (get_response
                ((example_connector (\<lambda>req. Inl (OtherError ''APITimeoutError'' ''Request timed out.'')))
                    \<lparr>system_prompt := Some []\<rparr>) ''2+2?'' [])) = [req] \<and>
      map_of req ''messages'' =
        Some (PList [PDict [(''role'', PStr ''user''), (''content'', PStr ''Q: 2+2? A:'')]]))"
proof -
  let ?remote = "\<lambda>req::pydict. (Inl (OtherError ''APITimeoutError'' ''Request timed out.'') :: exn + pyval)"
  let ?c = "(example_connector ?remote)\<lparr>system_prompt := Some []\<rparr>"
  have same: "?c\<lparr>client := recording ?remote\<rparr> = ?c"
    by (simp add: example_connector_def init_def)
  have empty: "system_prompt ?c = Some []"
    by simp
  have fields: "pre_prompt ?c = ''Q: ''" "post_prompt ?c = '' A:''"
    by (simp_all add: example_connector_def init_def example_base_def)
  obtain req turns where
    sent: "snd (snd (get_response (?c\<lparr>client := recording ?remote\<rparr>) ''2+2?'' [])) = [] @ [req]"
    and ms: "map_of req ''messages'' = Some (PList turns)"
    and one: "turns = [PDict [(''role'', PStr ''user''),
                     (''content'', PStr (pre_prompt ?c @ ''2+2?'' @ post_prompt ?c))]]"
    using empty_system_prompt_not_configured
      [OF empty, where remote = ?remote and p = "''2+2?''" and sent = "[]"]
    by blast
  from one fields have turns:
    "turns = [PDict [(''role'', PStr ''user''), (''content'', PStr ''Q: 2+2? A:'')]]"
    by simp
  show ?thesis
  proof (intro conjI exI [of _ req])
    show "system_prompt ?c = Some []"
      by (rule empty)
    show "snd (snd (get_response ?c ''2+2?'' [])) = [req]"
      using sent by (simp only: same append_Nil)
    show "map_of req ''messages'' =
        Some (PList [PDict [(''role'', PStr ''user''), (''content'', PStr ''Q: 2+2? A:'')]])"
      using ms by (simp only: turns)
  qed
qed

text \<open>
  C5. Whatever the optional parameters hold, entries named \<^verbatim>\<open>model\<close>,
  \<^verbatim>\<open>messages\<close> or \<^verbatim>\<open>timeout\<close> included, the payload sent maps
  \<^verbatim>\<open>model\<close> to the connector's model, \<^verbatim>\<open>messages\<close> to the turn sequence
  of this call and \<^verbatim>\<open>timeout\<close> to the connector's timeout, and gives every
  other key what the optional parameters give it.
\<close>

theorem merged_payload_explicit_fields_win:
  "\<exists>req.
     snd (snd (get_response (c\<lparr>client := recording remote\<rparr>) p sent)) = sent @ [req] \<and>
     map_of req ''model'' = Some (model c) \<and>
     map_of req ''messages'' = Some (PList (openai_request c p)) \<and>
     map_of req ''timeout'' = Some (timeout c) \<and>
     (\<forall>k. k \<notin> {''model'', ''messages'', ''timeout''} \<longrightarrow>
          map_of req k = map_of (optional_params c) k)"
proof (intro exI conjI)
  show "snd (snd (get_response (c\<lparr>client := recording remote\<rparr>) p sent))
      = sent @ [new_params c p]"
    by (rule sent_request)
  show "map_of (new_params c p) ''model'' = Some (model c)"
    by (simp add: new_params_def map_of_dict_set)
  show "map_of (new_params c p) ''messages'' = Some (PList (openai_request c p))"
    by (rule messages_of_new_params)
  show "map_of (new_params c p) ''timeout'' = Some (timeout c)"
    by (simp add: new_params_def map_of_dict_set)
  show "\<forall>k. k \<notin> {''model'', ''messages'', ''timeout''} \<longrightarrow>
      map_of (new_params c p) k = map_of (optional_params c) k"
    by (simp add: new_params_def map_of_dict_set)
qed

theorem merged_payload_explicit_fields_win_witness:
  "\<exists>req. snd (snd (get_response (example_connector (\<lambda>req. Inr (completion [choice (PStr ''4'')])))
                      ''2+2?'' [])) = [req] \<and>
     map_of req ''model'' = Some (PStr ''gpt-4o'') \<and>
     map_of req ''timeout'' = Some (PInt 600) \<and>
     map_of req ''messages'' =
       Some (PList [PDict [(''role'', PStr ''system''), (''content'', PStr ''Be brief.'')],
                    PDict [(''role'', PStr ''user''), (''content'', PStr ''Q: 2+2? A:'')]]) \<and>
     map_of req ''temperature'' = Some (PFloat ''0.5'')"
proof -
  let ?remote = "\<lambda>req::pydict. (Inr (completion [choice (PStr ''4'')]) :: exn + pyval)"
  let ?c = "example_connector ?remote"
  have same: "?c\<lparr>client := recording ?remote\<rparr> = ?c"
    by (simp add: example_connector_def init_def)
  have fields: "model ?c = PStr ''gpt-4o''" "timeout ?c = PInt 600"
    "optional_params ?c = [(''temperature'', PFloat ''0.5''), (''model'', PStr ''gpt-4o''),
         (''timeout'', PInt 5), (''messages'', PNone)]"
    by (simp_all add: example_connector_def init_def example_base_def dict_get_def)
  have turns: "openai_request ?c ''2+2?'' =
      [PDict [(''role'', PStr ''system''), (''content'', PStr ''Be brief.'')],
       PDict [(''role'', PStr ''user''), (''content'', PStr ''Q: 2+2? A:'')]]"
    by (simp add: openai_request_def turn_def connector_prompt_def example_connector_def
        init_def example_base_def)
  have other: "''temperature'' \<notin> {''model'', ''messages'', ''timeout''}"
    by simp
  obtain req where
    sent: "snd (snd (get_response (?c\<lparr>client := recording ?remote\<rparr>) ''2+2?'' [])) = [] @ [req]"
    and m: "map_of req ''model'' = Some (model ?c)"
    and ms: "map_of req ''messages'' = Some (PList (openai_request ?c ''2+2?''))"
    and t: "map_of req ''timeout'' = Some (timeout ?c)"
    and rest: "\<forall>k. k \<notin> {''model'', ''messages'', ''timeout''} \<longrightarrow>
          map_of req k = map_of (optional_params ?c) k"
    using merged_payload_explicit_fields_win
      [where c = ?c and remote = ?remote and p = "''2+2?''" and sent = "[]"]
    by blast
  have temp: "map_of req ''temperature'' = map_of (optional_params ?c) ''temperature''"
    by (rule mp [OF spec [OF rest] other])
  show ?thesis
  proof (intro exI [of _ req] conjI)
    show "snd (snd (get_response ?c ''2+2?'' [])) = [req]"
      using sent by (simp only: same append_Nil)
    show "map_of req ''model'' = Some (PStr ''gpt-4o'')"
      using m by (simp only: fields)
    show "map_of req ''timeout'' = Some (PInt 600)"
      using t by (simp only: fields)
    show "map_of req ''messages'' =
       Some (PList [PDict [(''role'', PStr ''system''), (''content'', PStr ''Be brief.'')],
                    PDict [(''role'', PStr ''user''), (''content'', PStr ''Q: 2+2? A:'')]])"
      using ms by (simp only: turns)
    show "map_of req ''temperature'' = Some (PFloat ''0.5'')"
      using temp by (simp add: fields)
  qed
qed

subsection \<open>Errors of the remote call\<close>

text \<open>
  C1. When the remote call raises a \<^verbatim>\<open>BadRequestError\<close> whose body is a mapping
  with an \<^verbatim>\<open>innererror\<close> entry that has a \<^verbatim>\<open>code\<close> field whose value contains
  the substring \<^verbatim>\<open>ResponsibleAIPolicyViolation\<close>, and the body has a
  \<^verbatim>\<open>message\<close> field, \<open>get_response\<close> returns the value of that field and
  raises nothing.
\<close>

theorem policy_violation_absorbed:
  assumes "client c (new_params c p) w = (Inl (BadRequestError m (PDict body)), w')"
    and "map_of body ''innererror'' = Some (PDict inner)"
    and "map_of inner ''code'' = Some (PStr code)"
    and "\<exists>pre suf. code = pre @ ''ResponsibleAIPolicyViolation'' @ suf"
    and "map_of body ''message'' = Some msg"
  shows "fst (get_response c p w) = Inr msg"
proof -
  have keys: "''innererror'' \<in> set (map fst body)" "''code'' \<in> set (map fst inner)"
    "''message'' \<in> set (map fst body)"
    using assms(2,3,5) by (auto dest: key_of_lookup simp del: set_map)
  have sub: "str_contains code ''ResponsibleAIPolicyViolation''"
    using assms(4) by (simp only: str_contains_iff)
  have "on_bad_request (BadRequestError m (PDict body)) (PDict body) = Inr msg"
    using keys sub assms(2,3,5)
    by (simp add: on_bad_request_def py_if_def py_and_def then_do_def is_dict_def del: set_map)
  then show ?thesis
    using assms(1) by (simp add: get_response_def then_do_def)
qed

theorem policy_violation_absorbed_witness:
  "fst (get_response
          (example_connector (\<lambda>req. Inl (BadRequestError ''Error code: 400'' filtered_body)))
          ''2+2?'' []) = Inr (PStr ''rejected'')"
proof -
  let ?c = "example_connector (\<lambda>req. Inl (BadRequestError ''Error code: 400'' filtered_body))"
  have call: "client ?c (new_params ?c ''2+2?'') [] =
      (Inl (BadRequestError ''Error code: 400''
         (PDict [(''innererror'', PDict [(''code'', PStr ''ResponsibleAIPolicyViolation'')]),
                 (''message'', PStr ''rejected'')])), [] @ [new_params ?c ''2+2?''])"
    by (simp only: example_client filtered_body_def)
  have sub: "\<exists>pre suf. ''ResponsibleAIPolicyViolation'' = pre @ ''ResponsibleAIPolicyViolation'' @ suf"
    by (rule exI [of _ "[]"], rule exI [of _ "[]"]) simp
  have inner: "map_of [(''innererror'', PDict [(''code'', PStr ''ResponsibleAIPolicyViolation'')]),
                 (''message'', PStr ''rejected'')] ''innererror''
      = Some (PDict [(''code'', PStr ''ResponsibleAIPolicyViolation'')])"
    by simp
  have code: "map_of [(''code'', PStr ''ResponsibleAIPolicyViolation'')] ''code''
      = Some (PStr ''ResponsibleAIPolicyViolation'')"
    by simp
  have message: "map_of [(''innererror'', PDict [(''code'', PStr ''ResponsibleAIPolicyViolation'')]),
                 (''message'', PStr ''rejected'')] ''message'' = Some (PStr ''rejected'')"
    by simp
  show ?thesis
    by (rule policy_violation_absorbed [OF call inner code sub message])
qed

text \<open>
  An error of any other class (a timeout, for one) leaves \<open>get_response\<close> as it
  came.
\<close>

theorem other_errors_propagate:
  assumes "client c (new_params c p) w = (Inl (OtherError cls msg), w')"
  shows "fst (get_response c p w) = Inl (OtherError cls msg)"
  using assms by (simp add: get_response_def then_do_def)

theorem other_errors_propagate_witness:
  "fst (get_response
          (example_connector (\<lambda>req. Inl (OtherError ''APITimeoutError'' ''Request timed out.'')))
          ''2+2?'' []) = Inl (OtherError ''APITimeoutError'' ''Request timed out.'')"
proof -
  let ?c = "example_connector (\<lambda>req. Inl (OtherError ''APITimeoutError'' ''Request timed out.''))"
  have call: "client ?c (new_params ?c ''2+2?'') [] =
      (Inl (OtherError ''APITimeoutError'' ''Request timed out.''), [] @ [new_params ?c ''2+2?''])"
    by (simp only: example_client)
  show ?thesis
    by (rule other_errors_propagate [OF call])
qed

text \<open>
  A \<^verbatim>\<open>BadRequestError\<close> is raised again, the same value, when its body is not a
  mapping, or has no \<^verbatim>\<open>innererror\<close> entry, or that entry is a mapping without a
  \<^verbatim>\<open>code\<close>, or the code is a string and either it does not contain
  \<^verbatim>\<open>ResponsibleAIPolicyViolation\<close> or the body has no \<^verbatim>\<open>message\<close>.
\<close>

theorem unmatched_bad_request_reraised:
  assumes "client c (new_params c p) w = (Inl (BadRequestError m body), w')"
    and "(\<exists>kvs. body = PDict kvs \<and> map_of kvs ''innererror'' = None)
         \<or> (\<exists>kvs inner. body = PDict kvs \<and> map_of kvs ''innererror'' = Some (PDict inner)
               \<and> map_of inner ''code'' = None)
         \<or> (\<exists>kvs inner code. body = PDict kvs \<and> map_of kvs ''innererror'' = Some (PDict inner)
               \<and> map_of inner ''code'' = Some (PStr code)
               \<and> (map_of kvs ''message'' = None
                    \<or> (\<forall>pre suf. code \<noteq> pre @ ''ResponsibleAIPolicyViolation'' @ suf)))
         \<or> is_dict body = False"
  shows "fst (get_response c p w) = Inl (BadRequestError m body)"
proof -
  have "on_bad_request (BadRequestError m body) body = Inl (BadRequestError m body)"
    using assms(2)
  proof (elim disjE exE conjE)
    fix kvs
    assume "body = PDict kvs" "map_of kvs ''innererror'' = None"
    then show ?thesis
      by (simp add: on_bad_request_def py_if_def py_and_def is_dict_def key_not_in_dict
          del: set_map)
  next
    fix kvs inner
    assume "body = PDict kvs" "map_of kvs ''innererror'' = Some (PDict inner)"
      "map_of inner ''code'' = None"
    then show ?thesis
      by (simp add: on_bad_request_def py_if_def py_and_def then_do_def is_dict_def
          key_not_in_dict key_of_lookup del: set_map)
  next
    fix kvs inner code
    assume "body = PDict kvs" "map_of kvs ''innererror'' = Some (PDict inner)"
      "map_of inner ''code'' = Some (PStr code)" "map_of kvs ''message'' = None"
    then show ?thesis
      by (simp add: on_bad_request_def py_if_def py_and_def then_do_def is_dict_def
          key_not_in_dict key_of_lookup del: set_map)
  next
    fix kvs inner code
    assume "body = PDict kvs" "map_of kvs ''innererror'' = Some (PDict inner)"
      "map_of inner ''code'' = Some (PStr code)"
      "\<forall>pre suf. code \<noteq> pre @ ''ResponsibleAIPolicyViolation'' @ suf"
    moreover from this have "\<not> str_contains code ''ResponsibleAIPolicyViolation''"
      by (simp only: str_contains_iff) blast
    ultimately show ?thesis
      by (simp add: on_bad_request_def py_if_def py_and_def then_do_def is_dict_def
          key_of_lookup del: set_map)
  next
    assume "is_dict body = False"
    then show ?thesis
      by (simp add: on_bad_request_def py_if_def py_and_def)
  qed
  then show ?thesis
    using assms(1) by (simp add: get_response_def then_do_def)
qed

theorem unmatched_bad_request_reraised_witness:
  "fst (get_response
          (example_connector (\<lambda>req. Inl (BadRequestError ''Error code: 400''
             (PDict [(''innererror'', PDict [(''code'', PStr ''OtherCode'')]),
                     (''message'', PStr ''x'')]))))
          ''2+2?'' [])
     = Inl (BadRequestError ''Error code: 400''
             (PDict [(''innererror'', PDict [(''code'', PStr ''OtherCode'')]),
                     (''message'', PStr ''x'')]))"
proof -
  let ?body = "PDict [(''innererror'', PDict [(''code'', PStr ''OtherCode'')]),
                      (''message'', PStr ''x'')]"
  let ?c = "example_connector (\<lambda>req. Inl (BadRequestError ''Error code: 400'' ?body))"
  have call: "client ?c (new_params ?c ''2+2?'') [] =
      (Inl (BadRequestError ''Error code: 400'' ?body), [] @ [new_params ?c ''2+2?''])"
    by (simp only: example_client)
  have "\<not> str_contains ''OtherCode'' ''ResponsibleAIPolicyViolation''"
    by simp
  then have other: "\<forall>pre suf. ''OtherCode'' \<noteq> pre @ ''ResponsibleAIPolicyViolation'' @ suf"
    by (simp only: str_contains_iff) blast
  have inner: "map_of [(''innererror'', PDict [(''code'', PStr ''OtherCode'')]),
                       (''message'', PStr ''x'')] ''innererror''
      = Some (PDict [(''code'', PStr ''OtherCode'')])"
    by simp
  have code: "map_of [(''code'', PStr ''OtherCode'')] ''code'' = Some (PStr ''OtherCode'')"
    by simp
  have shape: "(\<exists>kvs. ?body = PDict kvs \<and> map_of kvs ''innererror'' = None)
         \<or> (\<exists>kvs inner. ?body = PDict kvs \<and> map_of kvs ''innererror'' = Some (PDict inner)
               \<and> map_of inner ''code'' = None)
         \<or> (\<exists>kvs inner code. ?body = PDict kvs \<and> map_of kvs ''innererror'' = Some (PDict inner)
               \<and> map_of inner ''code'' = Some (PStr code)
               \<and> (map_of kvs ''message'' = None
                    \<or> (\<forall>pre suf. code \<noteq> pre @ ''ResponsibleAIPolicyViolation'' @ suf)))
         \<or> is_dict ?body = False"
    using inner code other by blast
  show ?thesis
    by (rule unmatched_bad_request_reraised [OF call shape])
qed

text \<open>
  C2. The claim is that every \<^verbatim>\<open>BadRequestError\<close> outside the absorbed shape is
  raised again unchanged. Where the body's \<^verbatim>\<open>innererror\<close> entry is
  \<^verbatim>\<open>None\<close>, the handler's test \<^verbatim>\<open>"code" in ex.body["innererror"]\<close> raises
  \<^verbatim>\<open>TypeError\<close>, and that is the exception the caller gets.
\<close>

theorem null_innererror_raises_type_error:
  "fst (get_response
         (example_connector (\<lambda>req. Inl (BadRequestError ''Error code: 400''
            (PDict [(''innererror'', PNone), (''message'', PStr ''x'')]))))
         ''2+2?'' []) = Inl TypeError"
  by (simp add: get_response_def example_client then_do_def on_bad_request_def py_if_def
      py_and_def is_dict_def)

subsection \<open>The response\<close>

text \<open>
  C6. When the remote call succeeds and the response's list of choices starts with
  \<open>c0\<close>, \<open>get_response\<close> returns the content of the message of \<open>c0\<close>; the
  other choices and the other attributes of the response, the choice and the message
  do not matter.
\<close>

theorem first_choice_content_returned:
  assumes "client c (new_params c p) w = (Inr response, w')"
    and "py_getattr response ''choices'' = Inr (PList (c0 # others))"
    and "py_getattr c0 ''message'' = Inr message"
    and "py_getattr message ''content'' = Inr content"
  shows "fst (get_response c p w) = Inr content"
  using assms
  by (simp add: get_response_def then_do_def process_response_def seq_index_def)

theorem first_choice_content_returned_witness:
  "fst (get_response
          (example_connector (\<lambda>req. Inr (completion [choice (PStr ''4''), choice (PStr ''5'')])))
          ''2+2?'' []) = Inr (PStr ''4'')"
proof -
  let ?c = "example_connector (\<lambda>req. Inr (completion [choice (PStr ''4''), choice (PStr ''5'')]))"
  have call: "client ?c (new_params ?c ''2+2?'') [] =
      (Inr (completion [choice (PStr ''4''), choice (PStr ''5'')]), [] @ [new_params ?c ''2+2?''])"
    by (simp only: example_client)
  have choices: "py_getattr (completion [choice (PStr ''4''), choice (PStr ''5'')]) ''choices''
      = Inr (PList (choice (PStr ''4'') # [choice (PStr ''5'')]))"
    by (simp add: completion_def)
  have message: "py_getattr (choice (PStr ''4'')) ''message''
      = Inr (PObj [(''role'', PStr ''assistant''), (''content'', PStr ''4'')])"
    by (simp add: choice_def)
  have content: "py_getattr (PObj [(''role'', PStr ''assistant''), (''content'', PStr ''4'')])
      ''content'' = Inr (PStr ''4'')"
    by simp
  show ?thesis
    by (rule first_choice_content_returned [OF call choices message content])
qed

text \<open>
  C8. When the remote call succeeds and the response's list of choices is empty,
  \<open>get_response\<close> ends with the \<^verbatim>\<open>IndexError\<close> of \<^verbatim>\<open>choices[0]\<close>: no
  value is returned in its place.
\<close>

theorem empty_choices_raise_index_error:
  assumes "client c (new_params c p) w = (Inr response, w')"
    and "py_getattr response ''choices'' = Inr (PList [])"
  shows "fst (get_response c p w) = Inl IndexError"
  using assms
  by (simp add: get_response_def then_do_def process_response_def seq_index_def)

theorem empty_choices_raise_index_error_witness:
  "fst (get_response (example_connector (\<lambda>req. Inr (completion []))) ''2+2?'' [])
     = Inl IndexError"
proof -
  let ?c = "example_connector (\<lambda>req. Inr (completion []))"
  have call: "client ?c (new_params ?c ''2+2?'') [] =
      (Inr (completion []), [] @ [new_params ?c ''2+2?''])"
    by (simp only: example_client)
  have choices: "py_getattr (completion []) ''choices'' = Inr (PList [])"
    by (simp add: completion_def)
  show ?thesis
    by (rule empty_choices_raise_index_error [OF call choices])
qed

text \<open>
  C7. The claim is that a value \<open>get_response\<close> returns is a string. Where the
  first choice's message has the content \<^verbatim>\<open>None\<close>, the call returns normally
  and the value returned is \<^verbatim>\<open>None\<close>.
\<close>

theorem null_content_returned:
  "fst (get_response (example_connector (\<lambda>req. Inr (completion [choice PNone]))) ''2+2?'' [])
     = Inr PNone"
  by (simp add: get_response_def example_client then_do_def process_response_def
      completion_def choice_def seq_index_def)

subsection \<open>The connector is not changed\<close>

text \<open>A call is its two parts, one after the other.\<close>

lemma get_response_phases:
  "get_response c p w =
     (case start_call c p w of
        (answer, c', w') \<Rightarrow> (case resume_call c' answer of (r, c'') \<Rightarrow> (r, c'', w')))"
  by (simp add: get_response_def start_call_def resume_call_def split: prod.splits)

lemma in_turn_serve:
  "in_turn c ps w =
     (map (\<lambda>a. except_clause (then_do a process_response)) (fst (serve c ps w)), c,
      snd (serve c ps w))"
  by (induction ps arbitrary: w) (simp_all add: get_response_def case_prod_beta)

lemma serve_snoc:
  "serve c (ps @ [p]) w =
     (fst (serve c ps w) @ [fst (client c (new_params c p) (snd (serve c ps w)))],
      snd (client c (new_params c p) (snd (serve c ps w))))"
  by (induction ps arbitrary: w) (simp_all add: case_prod_beta)

lemma length_serve: "length (fst (serve c ps w)) = length ps"
  by (induction ps arbitrary: w) (simp_all add: case_prod_beta)

lemma run_snoc: "run (schedule @ [i]) s = step i (run schedule s)"
  by (induction schedule arbitrary: s) simp_all

lemma set_start_order: "set (start_order n schedule) = {i \<in> set schedule. i < n}"
  by (induction schedule) auto

lemma distinct_start_order: "distinct (start_order n schedule)"
  by (induction schedule) (auto simp: set_start_order)

lemma start_order_snoc:
  "start_order n (schedule @ [i]) =
     (if i < n \<and> i \<notin> set schedule then start_order n schedule @ [i]
      else start_order n schedule)"
proof (induction schedule)
  case Nil
  then show ?case by simp
next
  case (Cons j schedule)
  have "i \<in> set schedule \<Longrightarrow> i < n \<Longrightarrow> i \<in> set (start_order n schedule)"
    by (simp add: set_start_order)
  then show ?case using Cons
    by (auto simp: set_start_order)
qed


lemma answers_snoc:
  assumes "length as = length order" and "i \<notin> set order"
  shows "map_of (zip (order @ [i]) (as @ [a])) j =
           (if j = i then Some a else map_of (zip order as) j)"
proof -
  have none: "map_of (zip order as) i = None"
    using assms by (simp add: map_of_zip_is_None)
  have "map_of (zip (order @ [i]) (as @ [a])) = map_of [(i, a)] ++ map_of (zip order as)"
    using assms(1) by simp
  then show ?thesis
    using none by (simp add: map_add_def split: option.splits)
qed

lemma answers_started:
  assumes "length as = length order" and "i \<in> set order"
  shows "\<exists>a. map_of (zip order as) i = Some a"
proof -
  have "map_of (zip order as) i \<noteq> None"
    using assms by simp
  then show ?thesis by auto
qed

lemma step_reached: "step i (reached c w ps schedule) = reached c w ps (schedule @ [i])"
proof -
  let ?n = "length ps"
  let ?order = "start_order ?n schedule"
  let ?served = "serve c (map ((!) ps) ?order) w"
  let ?as = "fst ?served"
  let ?ans = "map_of (zip ?order ?as)"
  have len: "length ?as = length ?order"
    by (simp add: length_serve)
  show ?thesis
  proof (cases "i < ?n")
    case False
    then have order: "start_order ?n (schedule @ [i]) = ?order"
      by (simp add: start_order_snoc)
    have "call_state ps (schedule @ [i]) ?ans j = call_state ps schedule ?ans j"
      if "j < ?n" for j
      using that False by (simp add: call_state_def split: option.splits)
    then have "map (call_state ps (schedule @ [i]) ?ans) [0..<?n]
        = map (call_state ps schedule ?ans) [0..<?n]"
      by simp
    then show ?thesis
      using False by (simp add: reached_def step_def order Let_def)
  next
    case inrange: True
    show ?thesis
    proof (cases "i \<in> set schedule")
      case False
      then have order: "start_order ?n (schedule @ [i]) = ?order @ [i]"
        using inrange by (simp add: start_order_snoc)
      have notin: "i \<notin> set ?order"
        using False by (simp add: set_start_order)
      then have "?ans i = None"
        using len by (simp add: map_of_zip_is_None)
      then have at_i: "call_state ps schedule ?ans i = Ready (ps ! i)"
        by (simp add: call_state_def split: option.splits)
      let ?r = "client c (new_params c (ps ! i)) (snd ?served)"
      have served': "serve c (map ((!) ps) ?order @ [ps ! i]) w = (?as @ [fst ?r], snd ?r)"
        by (simp add: serve_snoc)
      have count: "count_list (schedule @ [i]) i = 1"
        using False by simp
      have calls: "(map (call_state ps schedule ?ans) [0..<?n])[i := Awaiting (fst ?r)]
          = map (call_state ps (schedule @ [i]) (map_of (zip (?order @ [i]) (?as @ [fst ?r]))))
              [0..<?n]"
      proof (rule nth_equalityI)
        show "length ((map (call_state ps schedule ?ans) [0..<?n])[i := Awaiting (fst ?r)])
            = length (map (call_state ps (schedule @ [i])
                (map_of (zip (?order @ [i]) (?as @ [fst ?r])))) [0..<?n])"
          by simp
      next
        fix j
        assume "j < length ((map (call_state ps schedule ?ans) [0..<?n])[i := Awaiting (fst ?r)])"
        then have j: "j < ?n" by simp
        show "(map (call_state ps schedule ?ans) [0..<?n])[i := Awaiting (fst ?r)] ! j
            = map (call_state ps (schedule @ [i])
                (map_of (zip (?order @ [i]) (?as @ [fst ?r])))) [0..<?n] ! j"
        proof (cases "j = i")
          case True
          then show ?thesis
            using j count answers_snoc [OF len notin, of "fst ?r" i]
            by (simp add: call_state_def split: option.splits)
        next
          case False
          then show ?thesis
            using j answers_snoc [OF len notin, of "fst ?r" j]
            by (simp add: call_state_def split: option.splits)
        qed
      qed
      show ?thesis
        using inrange at_i calls
        by (simp add: reached_def step_def start_call_def order served' Let_def case_prod_beta)
    next
      case True
      then have order: "start_order ?n (schedule @ [i]) = ?order"
        by (simp add: start_order_snoc)
      have "i \<in> set ?order"
        using True inrange by (simp add: set_start_order)
      then obtain a where a: "?ans i = Some a"
        using answers_started [OF len] by blast
      have pos: "count_list schedule i \<noteq> 0"
        using True by (simp add: count_list_0_iff)
      have other: "call_state ps (schedule @ [i]) ?ans j = call_state ps schedule ?ans j"
        if "j \<noteq> i" for j
        using that by (simp add: call_state_def split: option.splits)
      have calls: "(map (call_state ps schedule ?ans) [0..<?n])
            [i := Done (except_clause (then_do a process_response))]
          = map (call_state ps (schedule @ [i]) ?ans) [0..<?n]"
      proof (rule nth_equalityI)
        show "length ((map (call_state ps schedule ?ans) [0..<?n])
            [i := Done (except_clause (then_do a process_response))])
            = length (map (call_state ps (schedule @ [i]) ?ans) [0..<?n])"
          by simp
      next
        fix j
        assume "j < length ((map (call_state ps schedule ?ans) [0..<?n])
            [i := Done (except_clause (then_do a process_response))])"
        then have j: "j < ?n" by simp
        show "(map (call_state ps schedule ?ans) [0..<?n])
            [i := Done (except_clause (then_do a process_response))] ! j
            = map (call_state ps (schedule @ [i]) ?ans) [0..<?n] ! j"
        proof (cases "j = i")
          case True
          then show ?thesis
            using j a pos by (simp add: call_state_def split: option.splits)
        next
          case False
          then show ?thesis
            using j other by simp
        qed
      qed
      show ?thesis
      proof (cases "count_list schedule i = 1")
        case True
        then have "call_state ps schedule ?ans i = Awaiting a"
          using a by (simp add: call_state_def split: option.splits)
        then show ?thesis
          using inrange calls
          by (simp add: reached_def step_def resume_call_def order Let_def)
      next
        case False
        then have finished: "call_state ps schedule ?ans i
            = Done (except_clause (then_do a process_response))"
          using a by (simp add: call_state_def split: option.splits)
        have "map (call_state ps schedule ?ans) [0..<?n]
            = map (call_state ps (schedule @ [i]) ?ans) [0..<?n]"
        proof -
          have "(map (call_state ps schedule ?ans) [0..<?n])
              [i := Done (except_clause (then_do a process_response))]
              = map (call_state ps schedule ?ans) [0..<?n]"
            using finished inrange by (simp add: list_update_same_conv)
          then show ?thesis using calls by simp
        qed
        then show ?thesis
          using inrange finished
          by (simp add: reached_def step_def order Let_def)
      qed
    qed
  qed
qed

lemma reached_Nil: "reached c w ps [] = \<lparr>self = c, world = w, calls = map Ready ps\<rparr>"
proof -
  have "map (call_state ps [] (\<lambda>i. None)) [0..<length ps] = map Ready ps"
    by (rule nth_equalityI) (simp_all add: call_state_def)
  then show ?thesis
    by (simp add: reached_def)
qed

lemma run_reached:
  "run schedule \<lparr>self = c, world = w, calls = map Ready ps\<rparr> = reached c w ps schedule"
proof (induction schedule rule: rev_induct)
  case Nil
  then show ?case by (simp add: reached_Nil)
next
  case (snoc i schedule)
  then show ?case by (simp add: run_snoc step_reached)
qed


lemma in_turn_recording:
  "snd (snd (in_turn (d\<lparr>client := recording remote\<rparr>) qs sent))
     = sent @ map (new_params d) qs"
proof (induction qs arbitrary: sent)
  case Nil
  then show ?case by simp
next
  case (Cons q qs)
  have same: "fst (snd (get_response (d\<lparr>client := recording remote\<rparr>) q sent))
      = d\<lparr>client := recording remote\<rparr>"
    by (simp add: get_response_def case_prod_beta)
  have sent': "snd (snd (get_response (d\<lparr>client := recording remote\<rparr>) q sent))
      = sent @ [new_params d q]"
    by (rule sent_request)
  show ?case
    using Cons.IH [of "sent @ [new_params d q]"] by (simp add: case_prod_beta same sent')
qed

lemma complete_start_order:
  assumes "\<forall>i<n. 2 \<le> count_list schedule i"
  shows "set (start_order n schedule) = {..<n}"
proof -
  have "i \<in> set schedule" if "i < n" for i
  proof -
    have "count_list schedule i \<noteq> 0"
      using assms that by fastforce
    then show ?thesis
      by (simp add: count_list_0_iff)
  qed
  then show ?thesis
    by (auto simp: set_start_order)
qed

text \<open>
  C9. No call changes the connector, whether it returns or raises:
  \<^item> after one call of \<open>get_response\<close> the connector is the one before it, field
    by field;
  \<^item> the same holds after any number of calls made one after the other, and with a
    client that records its requests every such call (a retry of the first, say) sends
    the request that the first call sent for that prompt;
  \<^item> at every point of every interleaving of concurrent calls the shared connector is
    the one the calls started with;
  \<^item> when every call has run to its end, each call has the result, and the world is in
    the state, that the same calls give when made one after the other in the order in
    which they started.
\<close>

theorem connector_unchanged_by_calls:
  "fst (snd (get_response c p w)) = c \<and>
   fst (snd (in_turn c qs w)) = c \<and>
   snd (snd (in_turn (d\<lparr>client := recording remote\<rparr>) qs sent))
     = sent @ map (new_params d) qs \<and>
   self (run schedule \<lparr>self = c, world = w, calls = map Ready ps\<rparr>) = c \<and>
   ((\<forall>i<length ps. 2 \<le> count_list schedule i) \<longrightarrow>
    (\<exists>rs w'.
       in_turn c (map ((!) ps) (start_order (length ps) schedule)) w = (rs, c, w') \<and>
       set (start_order (length ps) schedule) = {..<length ps} \<and>
       world (run schedule \<lparr>self = c, world = w, calls = map Ready ps\<rparr>) = w' \<and>
       length (calls (run schedule \<lparr>self = c, world = w, calls = map Ready ps\<rparr>))
         = length ps \<and>
       map ((!) (calls (run schedule \<lparr>self = c, world = w, calls = map Ready ps\<rparr>)))
           (start_order (length ps) schedule) = map Done rs))"
proof (intro conjI impI)
  let ?n = "length ps"
  let ?order = "start_order ?n schedule"
  let ?served = "serve c (map ((!) ps) ?order) w"
  let ?as = "fst ?served"
  let ?fin = "\<lambda>a. except_clause (then_do a process_response)"
  let ?s = "run schedule \<lparr>self = c, world = w, calls = map Ready ps\<rparr>"
  have s: "?s = reached c w ps schedule"
    by (rule run_reached)
  show "fst (snd (get_response c p w)) = c"
    by (simp add: get_response_def case_prod_beta)
  show "fst (snd (in_turn c qs w)) = c"
    by (simp add: in_turn_serve)
  show "snd (snd (in_turn (d\<lparr>client := recording remote\<rparr>) qs sent))
      = sent @ map (new_params d) qs"
    by (rule in_turn_recording)
  show "self ?s = c"
    by (simp add: s reached_def Let_def)
  assume complete: "\<forall>i<?n. 2 \<le> count_list schedule i"
  have len: "length ?as = length ?order"
    by (simp add: length_serve)
  have all: "set ?order = {..<?n}"
    using complete by (rule complete_start_order)
  have calls: "map ((!) (calls ?s)) ?order = map Done (map ?fin ?as)"
  proof (rule nth_equalityI)
    show "length (map ((!) (calls ?s)) ?order) = length (map Done (map ?fin ?as))"
      by (simp add: len)
  next
    fix k
    assume "k < length (map ((!) (calls ?s)) ?order)"
    then have k: "k < length ?order" by simp
    then have "?order ! k \<in> set ?order" by simp
    then have inrange: "?order ! k < ?n"
      using all by blast
    have answer: "map_of (zip ?order ?as) (?order ! k) = Some (?as ! k)"
      using k len by (simp add: map_of_zip_nth distinct_start_order)
    have "2 \<le> count_list schedule (?order ! k)"
      using complete inrange by blast
    then have "count_list schedule (?order ! k) \<noteq> 1"
      by simp
    then have "call_state ps schedule (map_of (zip ?order ?as)) (?order ! k)
        = Done (?fin (?as ! k))"
      using answer by (simp add: call_state_def)
    then have "calls ?s ! (?order ! k) = Done (?fin (?as ! k))"
      using inrange by (simp add: s reached_def Let_def)
    then show "map ((!) (calls ?s)) ?order ! k = map Done (map ?fin ?as) ! k"
      using k len by simp
  qed
  show "\<exists>rs w'.
      in_turn c (map ((!) ps) ?order) w = (rs, c, w') \<and>
      set ?order = {..<?n} \<and> world ?s = w' \<and>
      length (calls ?s) = ?n \<and> map ((!) (calls ?s)) ?order = map Done rs"
  proof (intro exI conjI)
    show "in_turn c (map ((!) ps) ?order) w = (map ?fin ?as, c, snd ?served)"
      by (rule in_turn_serve)
    show "set ?order = {..<?n}"
      by (rule all)
    show "world ?s = snd ?served"
      by (simp add: s reached_def Let_def)
    show "length (calls ?s) = ?n"
      by (simp add: s reached_def Let_def)
    show "map ((!) (calls ?s)) ?order = map Done (map ?fin ?as)"
      by (rule calls)
  qed
qed

text \<open>Two calls, the second started first and ended last.\<close>

theorem connector_unchanged_by_calls_witness:
  "self (run [1, 0, 0, 1]
           \<lparr>self = example_connector (\<lambda>req. Inr (completion [choice (PStr ''4'')])),
            world = [], calls = map Ready [''2+2?'', ''3+3?'']\<rparr>)
     = example_connector (\<lambda>req. Inr (completion [choice (PStr ''4'')])) \<and>
   world (run [1, 0, 0, 1]
           \<lparr>self = example_connector (\<lambda>req. Inr (completion [choice (PStr ''4'')])),
            world = [], calls = map Ready [''2+2?'', ''3+3?'']\<rparr>)
     = [new_params (example_connector (\<lambda>req. Inr (completion [choice (PStr ''4'')]))) ''3+3?'',
        new_params (example_connector (\<lambda>req. Inr (completion [choice (PStr ''4'')]))) ''2+2?''] \<and>
   calls (run [1, 0, 0, 1]
           \<lparr>self = example_connector (\<lambda>req. Inr (completion [choice (PStr ''4'')])),
            world = [], calls = map Ready [''2+2?'', ''3+3?'']\<rparr>)
     = [Done (Inr (PStr ''4'')), Done (Inr (PStr ''4''))]"
proof -
  let ?c = "example_connector (\<lambda>req. Inr (completion [choice (PStr ''4'')]))"
  let ?ps = "[''2+2?'', ''3+3?'']"
  let ?s = "run [1, 0, 0, 1] \<lparr>self = ?c, world = [], calls = map Ready ?ps\<rparr>"
  have complete: "\<forall>i<length ?ps. 2 \<le> count_list [1, 0, 0, 1] i"
    by (simp add: less_Suc_eq)
  have order: "start_order (length ?ps) [1, 0, 0, 1] = [1, 0]"
    by simp
  have one: "get_response ?c q sent = (Inr (PStr ''4''), ?c, sent @ [new_params ?c q])"
    for q sent
    by (simp add: get_response_def example_client then_do_def process_response_def
        completion_def choice_def seq_index_def)
  have seq: "in_turn ?c [''3+3?'', ''2+2?''] []
      = ([Inr (PStr ''4''), Inr (PStr ''4'')], ?c,
         [new_params ?c ''3+3?'', new_params ?c ''2+2?''])"
    by (simp add: one)
  have facts: "self ?s = ?c \<and>
      ((\<forall>i<length ?ps. 2 \<le> count_list [1, 0, 0, 1] i) \<longrightarrow>
       (\<exists>rs w'.
          in_turn ?c (map ((!) ?ps) (start_order (length ?ps) [1, 0, 0, 1])) [] = (rs, ?c, w') \<and>
          set (start_order (length ?ps) [1, 0, 0, 1]) = {..<length ?ps} \<and>
          world ?s = w' \<and>
          length (calls ?s) = length ?ps \<and>
          map ((!) (calls ?s)) (start_order (length ?ps) [1, 0, 0, 1]) = map Done rs))"
    using connector_unchanged_by_calls
      [where c = ?c and w = "[]" and ps = ?ps and schedule = "[1, 0, 0, 1]"]
    by blast
  then have self: "self ?s = ?c"
    by (rule conjunct1)
  from facts complete obtain rs w' where
    turn: "in_turn ?c (map ((!) ?ps) (start_order (length ?ps) [1, 0, 0, 1])) [] = (rs, ?c, w')"
    and world: "world ?s = w'"
    and len: "length (calls ?s) = length ?ps"
    and calls: "map ((!) (calls ?s)) (start_order (length ?ps) [1, 0, 0, 1]) = map Done rs"
    by blast
  from turn have "in_turn ?c [''3+3?'', ''2+2?''] [] = (rs, ?c, w')"
    by (simp only: order) simp
  with seq have rs: "rs = [Inr (PStr ''4''), Inr (PStr ''4'')]"
    and w': "w' = [new_params ?c ''3+3?'', new_params ?c ''2+2?'']"
    by simp_all
  define cs where "cs = calls ?s"
  have "map ((!) cs) [1, 0] = map Done [Inr (PStr ''4''), Inr (PStr ''4'')]"
    using calls by (simp only: order rs cs_def)
  then have c1: "cs ! 1 = Done (Inr (PStr ''4''))" and c0: "cs ! 0 = Done (Inr (PStr ''4''))"
    by simp_all
  have "length cs = 2"
    using len by (simp only: cs_def) simp
  then obtain a b where "cs = [a, b]"
    by (cases cs; cases "tl cs"; cases "tl (tl cs)") auto
  with c0 c1 have "cs = [Done (Inr (PStr ''4'')), Done (Inr (PStr ''4''))]"
    by simp
  then have result: "calls ?s = [Done (Inr (PStr ''4'')), Done (Inr (PStr ''4''))]"
    by (simp only: cs_def)
  show ?thesis
  proof (intro conjI)
    show "self ?s = ?c" by (rule self)
    show "world ?s = [new_params ?c ''3+3?'', new_params ?c ''2+2?'']"
      using world by (simp only: w')
    show "calls ?s = [Done (Inr (PStr ''4'')), Done (Inr (PStr ''4''))]"
      by (rule result)
  qed
qed

end
